theory Spec2Isabelle
  imports Main "HOL-Library.Word"
begin

section \<open>Process configuration (main.go)\<close>

text \<open>
  Go's \<^verbatim>\<open>time.Duration\<close> is an \<^verbatim>\<open>int64\<close> count of nanoseconds;
  \<^verbatim>\<open>time.Hour\<close> is \<open>60 * 60 * 10^9\<close> of them.
\<close>

type_synonym Duration = "64 word"

definition Hour :: Duration where
  "Hour = 3600000000000"

text \<open>The struct \<^verbatim>\<open>Configuration\<close> of main.go, field by field.\<close>

record Configuration =
  PostgresUrl :: string
  ListenAddress :: string
  ApiPrefix :: string
  DataDir :: string
  EnableSwagger :: bool
  CleanupInterval :: Duration

text \<open>
  \<^verbatim>\<open>makeDefaults(c *Configuration)\<close> mutates the struct behind the pointer; the model
  returns the updated struct. The four \<^verbatim>\<open>if\<close> statements run in the source's order.
\<close>

definition makeDefaults :: "Configuration \<Rightarrow> Configuration" where
  "makeDefaults c =
     (let c1 = (if ApiPrefix c = [] then c\<lparr>ApiPrefix := ''/''\<rparr> else c);
          c2 = (if ListenAddress c1 = [] then c1\<lparr>ListenAddress := ''localhost:3000''\<rparr> else c1);
          c3 = (if DataDir c2 = [] then c2\<lparr>DataDir := ''data''\<rparr> else c2);
          c4 = (if CleanupInterval c3 = 0 then c3\<lparr>CleanupInterval := Hour\<rparr> else c3)
      in c4)"

section \<open>Metadata table and blob store\<close>

type_synonym byte = "8 word"

text \<open>
  Modelled from the spec: the struct \<^verbatim>\<open>model.Metadata\<close> is declared in a package that is
  not among the sources. Its fields are those of the metadata record of the spec's data
  model (id, path, size, nullable turn_id, created_at). \<^verbatim>\<open>cleanup\<close> reads
  \<^verbatim>\<open>m.ID\<close> (appended to an \<^verbatim>\<open>[]int64\<close>), \<^verbatim>\<open>m.Path\<close> (passed to
  \<^verbatim>\<open>os.Remove\<close>) and the column \<^verbatim>\<open>turn_id\<close>, where NULL is \<open>None\<close>.
\<close>

record Metadata =
  ID :: int
  Path :: string
  Size :: int
  TurnID :: "int option"
  CreatedAt :: int

text \<open>
  The errors \<^verbatim>\<open>cleanup\<close> can meet: \<^verbatim>\<open>os.ErrNotExist\<close>, any other error of
  \<^verbatim>\<open>os.Remove\<close> (a permission or device error), and the failures of the four
  database steps of a transaction.
\<close>

datatype error = ErrNotExist | ErrPermission | ErrBegin | ErrQuery | ErrDelete | ErrCommit

text \<open>
  The blob store is a directory of files named by path. A file holds its bytes and
  whether the process may unlink it; unlinking a file it may not unlink is the
  I/O error other than "file does not exist".
\<close>

datatype blob = Blob (content: "byte list") (removable: bool)

type_synonym fs = "string \<Rightarrow> blob option"

text \<open>\<^verbatim>\<open>os.Remove(path)\<close>: the error (\<open>None\<close> is Go's \<^verbatim>\<open>nil\<close>) and the directory afterwards.\<close>

definition os_Remove :: "fs \<Rightarrow> string \<Rightarrow> error option \<times> fs" where
  "os_Remove fs p =
     (case fs p of
        None \<Rightarrow> (Some ErrNotExist, fs)
      | Some f \<Rightarrow> if removable f then (None, fs(p := None)) else (Some ErrPermission, fs))"

text \<open>
  Everything the process acts on: the committed metadata table (rows in the order the
  store returns them), the blob directory, and what \<^verbatim>\<open>log.Print\<close> has written.
\<close>

record world =
  rows :: "Metadata list"
  files :: fs
  logs :: "error list"

text \<open>
  The relational store is an external collaborator: each of its steps may fail. Which
  steps fail in one transaction is a parameter. Whether the row deletion fails may
  depend on the list of keys it is given (the ORM may refuse a batch, an empty one
  for instance).
\<close>

record faults =
  begin_fails :: bool
  query_fails :: bool
  delete_fails :: "int list \<Rightarrow> bool"
  commit_fails :: bool

section \<open>The sweep (main.go, cleanup)\<close>

text \<open>
  \<^verbatim>\<open>tx.Where("turn_id IS NULL").Find(&metadata).Count(&n).Error\<close>: the rows whose
  \<^verbatim>\<open>turn_id\<close> is NULL and their number, or the query's error.
\<close>

definition tx_Find_unlinked :: "faults \<Rightarrow> Metadata list \<Rightarrow> error + (Metadata list \<times> int)" where
  "tx_Find_unlinked env tx =
     (if query_fails env then Inl ErrQuery
      else let metadata = filter (\<lambda>m. TurnID m = None) tx
           in Inr (metadata, int (length metadata)))"

text \<open>\<^verbatim>\<open>tx.Delete(&[]model.Metadata{}, deleted).Error\<close>: delete the rows whose key is listed.\<close>

definition tx_Delete :: "faults \<Rightarrow> Metadata list \<Rightarrow> int list \<Rightarrow> error + Metadata list" where
  "tx_Delete env tx deleted =
     (if delete_fails env deleted then Inl ErrDelete
      else Inr (filter (\<lambda>m. ID m \<notin> set deleted) tx))"

text \<open>
  The loop \<^verbatim>\<open>for _, m := range metadata\<close>, threading the list \<^verbatim>\<open>deleted\<close>, the blob
  directory and the log:
  \<^verbatim>\<open>
  if err := os.Remove(m.Path); err != nil && !errors.Is(err, os.ErrNotExist) {
      log.Print(err)
  } else {
      deleted = append(deleted, m.ID)
  }
  \<close>
\<close>

fun remove_blobs :: "Metadata list \<Rightarrow> int list \<times> fs \<times> error list \<Rightarrow> int list \<times> fs \<times> error list" where
  "remove_blobs [] (deleted, fs, lg) = (deleted, fs, lg)"
| "remove_blobs (m # ms) (deleted, fs, lg) =
     (case os_Remove fs (Path m) of
        (Some e, fs') \<Rightarrow>
          if e \<noteq> ErrNotExist then remove_blobs ms (deleted, fs', lg @ [e])
          else remove_blobs ms (deleted @ [ID m], fs', lg)
      | (None, fs') \<Rightarrow> remove_blobs ms (deleted @ [ID m], fs', lg))"

text \<open>
  The closure passed to \<^verbatim>\<open>db.Transaction\<close>. It works on the transaction's view of
  the table and writes the captured variable \<^verbatim>\<open>n\<close> (initially 0); the blob directory
  and the log are outside the transaction. It returns its error, the view, and the
  state outside the transaction.
\<close>

definition cleanup_body ::
    "faults \<Rightarrow> Metadata list \<Rightarrow> fs \<times> error list \<times> int \<Rightarrow>
     error option \<times> Metadata list \<times> (fs \<times> error list \<times> int)" where
  "cleanup_body env tx ext =
     (case ext of (fs, lg, n0) \<Rightarrow>
        (case tx_Find_unlinked env tx of
           Inl err \<Rightarrow> (Some err, tx, (fs, lg, n0))
         | Inr (metadata, n) \<Rightarrow>
             (case remove_blobs metadata ([], fs, lg) of
                (deleted, fs', lg') \<Rightarrow>
                  (case tx_Delete env tx deleted of
                     Inl err \<Rightarrow> (Some err, tx, (fs', lg', n))
                   | Inr tx' \<Rightarrow> (None, tx', (fs', lg', n))))))"

text \<open>
  \<^verbatim>\<open>db.Transaction(fc)\<close>: begin, run the closure on the committed table, roll back
  when the closure returns an error, commit otherwise. A failed commit leaves the
  committed table as it was. What the closure did outside the transaction stays done.
\<close>

definition Transaction ::
    "faults \<Rightarrow> (Metadata list \<Rightarrow> 'e \<Rightarrow> error option \<times> Metadata list \<times> 'e) \<Rightarrow>
     Metadata list \<Rightarrow> 'e \<Rightarrow> error option \<times> Metadata list \<times> 'e" where
  "Transaction env fc db ext =
     (if begin_fails env then (Some ErrBegin, db, ext)
      else (case fc db ext of
              (Some err, tx, ext') \<Rightarrow> (Some err, db, ext')
            | (None, tx, ext') \<Rightarrow>
                if commit_fails env then (Some ErrCommit, db, ext') else (None, tx, ext')))"

text \<open>\<^verbatim>\<open>cleanup(db) (int64, error)\<close>: returns \<^verbatim>\<open>n, err\<close> and leaves the world changed.\<close>

definition cleanup :: "faults \<Rightarrow> world \<Rightarrow> (int \<times> error option) \<times> world" where
  "cleanup env w =
     (case Transaction env (cleanup_body env) (rows w) (files w, logs w, 0) of
        (err, db', (fs', lg', n)) \<Rightarrow> ((n, err), \<lparr>rows = db', files = fs', logs = lg'\<rparr>))"

text \<open>
  What an observer finds when the process is killed \<open>k\<close> iterations into the loop of
  one sweep: the transaction was never committed, so the store rolls it back and the
  committed table is the one the sweep started with; the blobs of the first \<open>k\<close>
  selected records have been through \<^verbatim>\<open>os.Remove\<close>.
\<close>

definition interrupted :: "faults \<Rightarrow> nat \<Rightarrow> world \<Rightarrow> world" where
  "interrupted env k w =
     (if begin_fails env then w
      else (case tx_Find_unlinked env (rows w) of
              Inl err \<Rightarrow> w
            | Inr (metadata, n) \<Rightarrow>
                (case remove_blobs (take k metadata) ([], files w, logs w) of
                   (deleted, fs', lg') \<Rightarrow> w\<lparr>files := fs', logs := lg'\<rparr>)))"

text \<open>
  The worlds one sweep passes through: before the loop, after each iteration of the
  loop, and after \<^verbatim>\<open>db.Transaction\<close> has returned.
\<close>

definition cleanup_trace :: "faults \<Rightarrow> world \<Rightarrow> world list" where
  "cleanup_trace env w =
     map (\<lambda>k. interrupted env k w)
       [0 ..< Suc (length (filter (\<lambda>m. TurnID m = None) (rows w)))]
     @ [snd (cleanup env w)]"

section \<open>What one sweep amounts to\<close>

text \<open>
  Notions used to state the effect of a sweep in closed form. A path is stuck when
  \<^verbatim>\<open>os.Remove\<close> fails on it with an error other than "file does not exist"; such a
  failure leaves the directory as it was, so a stuck path stays stuck.
\<close>

definition stuck :: "fs \<Rightarrow> string \<Rightarrow> bool" where
  "stuck fs p \<longleftrightarrow> (case fs p of None \<Rightarrow> False | Some b \<Rightarrow> \<not> removable b)"

text \<open>The directory after \<^verbatim>\<open>os.Remove\<close> has been tried on the path of each record of a list.\<close>

definition swept :: "fs \<Rightarrow> Metadata list \<Rightarrow> fs" where
  "swept fs ms = (\<lambda>q. if q \<in> Path ` set ms \<and> \<not> stuck fs q then None else fs q)"

text \<open>
  The records a sweep selects, the keys of those whose blob removal succeeded or was
  tolerated, and the log after the loop.
\<close>

definition selected :: "world \<Rightarrow> Metadata list" where
  "selected w = filter (\<lambda>m. TurnID m = None) (rows w)"

definition batch :: "world \<Rightarrow> int list" where
  "batch w = map ID (filter (\<lambda>m. \<not> stuck (files w) (Path m)) (selected w))"

definition sweep_log :: "world \<Rightarrow> error list" where
  "sweep_log w =
     logs w @ map (\<lambda>m. ErrPermission) (filter (\<lambda>m. stuck (files w) (Path m)) (selected w))"

section \<open>The reclamation task (main.go, run)\<close>

text \<open>
  The second goroutine of \<^verbatim>\<open>run\<close>:
  \<^verbatim>\<open>
  ticker := time.NewTicker(c.CleanupInterval)
  for {
      select {
      case <-ticker.C:
          _, err := cleanup(db)
          if err != nil { log.Print(err) }
      case <-ctx.Done():
          return nil
      }
  }
  \<close>
  The \<^verbatim>\<open>select\<close> receives a sequence of events: a tick (with the faults the store
  shows during that sweep) or the cancellation of the context. The loop has no
  exit but \<^verbatim>\<open>return nil\<close>; on a finite prefix of events that holds no
  cancellation it is still running. \<^verbatim>\<open>time.NewTicker\<close> panics on an interval
  that is not positive.
\<close>

datatype event = Tick faults | CtxDone

datatype outcome = Running | Returned "error option" | Panicked

fun cleanup_loop :: "event list \<Rightarrow> world \<Rightarrow> outcome \<times> world" where
  "cleanup_loop [] w = (Running, w)"
| "cleanup_loop (CtxDone # es) w = (Returned None, w)"
| "cleanup_loop (Tick env # es) w =
     (case cleanup env w of
        ((n, Some err), w') \<Rightarrow> cleanup_loop es (w'\<lparr>logs := logs w' @ [err]\<rparr>)
      | ((n, None), w') \<Rightarrow> cleanup_loop es w')"

definition reclamation_task :: "Configuration \<Rightarrow> event list \<Rightarrow> world \<Rightarrow> outcome \<times> world" where
  "reclamation_task c es w =
     (if sint (CleanupInterval c) \<le> 0 then (Panicked, w) else cleanup_loop es w)"

section \<open>The grace period of the specification\<close>

text \<open>
  Modelled from the spec: the sweep of the specification selects a record when its
  \<^verbatim>\<open>turn_id\<close> is NULL and its \<^verbatim>\<open>created_at\<close> is older than a grace period. The
  source has neither a clock nor a grace period; both are parameters here.
\<close>

definition within_grace :: "int \<Rightarrow> int \<Rightarrow> Metadata \<Rightarrow> bool" where
  "within_grace now grace m \<longleftrightarrow> now - CreatedAt m < grace"

definition spec_selected :: "int \<Rightarrow> int \<Rightarrow> Metadata \<Rightarrow> bool" where
  "spec_selected now grace m \<longleftrightarrow> TurnID m = None \<and> \<not> within_grace now grace m"

section \<open>Upload and download of a turn's artifact\<close>

text \<open>
  Modelled from the spec: the package \<^verbatim>\<open>api/turn\<close> (the handlers \<^verbatim>\<open>tc.Upload\<close> and
  \<^verbatim>\<open>tc.Download\<close> that main.go routes to) is not among the sources. The definitions
  follow the Artifact Manager's protocol in the specification: check the turn, the
  content type and the size; write the blob at a newly allocated path; in one
  transaction read the turn's current record and insert the new one in its place;
  on a failed commit delete the blob just written and fail with StorageConflict; on
  success delete the superseded blob, a failure being logged only. The one accepted
  content type is the one main.go's route demands.
\<close>

datatype artifact_error = NotFound | InvalidContent | StorageConflict | IOFailure

record upload_env =
  turn_exists :: "int \<Rightarrow> bool"
  max_upload_size :: nat
  new_path :: string
  now :: int
  write_fails :: bool
  tx_fails :: bool

definition accepted_content_type :: string where
  "accepted_content_type = ''application/zip''"

definition fresh_id :: "Metadata list \<Rightarrow> int" where
  "fresh_id rs = fold max (map ID rs) 0 + 1"

definition Upload ::
    "upload_env \<Rightarrow> world \<Rightarrow> int \<Rightarrow> byte list \<Rightarrow> string \<Rightarrow> (artifact_error + Metadata) \<times> world" where
  "Upload env w turnId contentStream declaredContentType =
     (if \<not> turn_exists env turnId then (Inl NotFound, w)
      else if declaredContentType \<noteq> accepted_content_type
              \<or> max_upload_size env < length contentStream then (Inl InvalidContent, w)
      else if write_fails env then (Inl IOFailure, w)
      else
        let written = (files w)(new_path env \<mapsto> Blob contentStream True);
            previous = find (\<lambda>m. TurnID m = Some turnId) (rows w);
            inserted = \<lparr>ID = fresh_id (rows w), Path = new_path env,
                        Size = int (length contentStream), TurnID = Some turnId,
                        CreatedAt = now env\<rparr>
        in if tx_fails env
           then (Inl StorageConflict, w\<lparr>files := written(new_path env := None)\<rparr>)
           else (case previous of
                   None \<Rightarrow> (Inr inserted, w\<lparr>rows := rows w @ [inserted], files := written\<rparr>)
                 | Some old \<Rightarrow>
                     (case os_Remove written (Path old) of
                        (err, fs') \<Rightarrow>
                          (Inr inserted,
                           \<lparr>rows = filter (\<lambda>m. ID m \<noteq> ID old) (rows w) @ [inserted],
                            files = fs',
                            logs = (case err of None \<Rightarrow> logs w | Some e \<Rightarrow> logs w @ [e])\<rparr>))))"

definition Download :: "world \<Rightarrow> int \<Rightarrow> artifact_error + (byte list \<times> int)" where
  "Download w turnId =
     (case find (\<lambda>m. TurnID m = Some turnId) (rows w) of
        None \<Rightarrow> Inl NotFound
      | Some m \<Rightarrow>
          (case files w (Path m) of
             None \<Rightarrow> Inl IOFailure
           | Some b \<Rightarrow> Inr (content b, Size m)))"

text \<open>
  Invariant I1 of the specification, as the upload needs it: rows that carry the same
  non-null \<^verbatim>\<open>turn_id\<close> are one row (they have one key).
\<close>

definition I1 :: "Metadata list \<Rightarrow> bool" where
  "I1 rs \<longleftrightarrow>
     (\<forall>m \<in> set rs. \<forall>m' \<in> set rs. TurnID m \<noteq> None \<and> TurnID m = TurnID m' \<longrightarrow> ID m = ID m')"

section \<open>Concrete worlds\<close>

text \<open>
  A store that shows no fault and one whose commit fails; a table of one unlinked
  record created at time 100 whose blob is present; a table of a linked record beside
  two unlinked ones, the first with a blob that cannot be unlinked, the second with
  its blob already gone; an upload environment; a configuration with every
  defaulted field left at its zero value.
\<close>

definition no_faults :: faults where
  "no_faults = \<lparr>begin_fails = False, query_fails = False, delete_fails = (\<lambda>ids. False),
                commit_fails = False\<rparr>"

definition commit_fault :: faults where
  "commit_fault = no_faults\<lparr>commit_fails := True\<rparr>"

definition rec_a :: Metadata where
  "rec_a = \<lparr>ID = 1, Path = ''data/a.zip'', Size = 2, TurnID = None, CreatedAt = 100\<rparr>"

definition rec_b :: Metadata where
  "rec_b = \<lparr>ID = 2, Path = ''data/b.zip'', Size = 1, TurnID = None, CreatedAt = 50\<rparr>"

definition rec_c :: Metadata where
  "rec_c = \<lparr>ID = 3, Path = ''data/c.zip'', Size = 1, TurnID = Some 7, CreatedAt = 10\<rparr>"

definition world_fresh :: world where
  "world_fresh = \<lparr>rows = [rec_a], files = [''data/a.zip'' \<mapsto> Blob [1, 2] True], logs = []\<rparr>"

definition world_mixed :: world where
  "world_mixed =
     \<lparr>rows = [rec_a, rec_b, rec_c],
      files = [''data/a.zip'' \<mapsto> Blob [1, 2] False, ''data/c.zip'' \<mapsto> Blob [9] True],
      logs = []\<rparr>"

definition env_up :: upload_env where
  "env_up = \<lparr>turn_exists = (\<lambda>t. t = 7), max_upload_size = 10, new_path = ''data/n.zip'',
             now = 200, write_fails = False, tx_fails = False\<rparr>"

definition config_hourly :: Configuration where
  "config_hourly = \<lparr>PostgresUrl = ''pg'', ListenAddress = [], ApiPrefix = [], DataDir = [],
                    EnableSwagger = True, CleanupInterval = 0\<rparr>"

section \<open>The sweep in closed form\<close>

lemma os_Remove_stuck: "stuck fs p \<Longrightarrow> os_Remove fs p = (Some ErrPermission, fs)"
  by (auto simp: os_Remove_def stuck_def split: option.splits)

lemma os_Remove_absent: "fs p = None \<Longrightarrow> os_Remove fs p = (Some ErrNotExist, fs)"
  by (simp add: os_Remove_def)

lemma os_Remove_present:
  "fs p = Some b \<Longrightarrow> removable b \<Longrightarrow> os_Remove fs p = (None, fs(p := None))"
  by (simp add: os_Remove_def)

lemma upd_absent: "fs p = None \<Longrightarrow> fs(p := None) = fs"
  by (rule ext) simp

lemma stuck_upd: "\<not> stuck fs p \<Longrightarrow> stuck (fs(p := None)) = stuck fs"
  by (rule ext) (auto simp: stuck_def split: option.splits)

lemma swept_Nil: "swept fs [] = fs"
  by (rule ext) (simp add: swept_def)

lemma swept_Cons_stuck: "stuck fs (Path m) \<Longrightarrow> swept fs (m # ms) = swept fs ms"
  by (rule ext) (auto simp: swept_def)

lemma swept_Cons_free:
  "\<not> stuck fs (Path m) \<Longrightarrow> swept fs (m # ms) = swept (fs(Path m := None)) ms"
  by (rule ext) (auto simp: swept_def stuck_upd)

lemma remove_blobs_eq:
  "remove_blobs ms (d, fs, lg) =
     (d @ map ID (filter (\<lambda>m. \<not> stuck fs (Path m)) ms),
      swept fs ms,
      lg @ map (\<lambda>m. ErrPermission) (filter (\<lambda>m. stuck fs (Path m)) ms))"
proof (induction ms arbitrary: d fs lg)
  case Nil
  show ?case by (simp add: swept_Nil)
next
  case (Cons m ms)
  show ?case
  proof (cases "stuck fs (Path m)")
    case True
    then show ?thesis
      by (simp add: os_Remove_stuck Cons.IH swept_Cons_stuck)
  next
    case False
    have step: "remove_blobs (m # ms) (d, fs, lg) =
        remove_blobs ms (d @ [ID m], fs(Path m := None), lg)"
    proof (cases "fs (Path m)")
      case None
      then have "remove_blobs (m # ms) (d, fs, lg) = remove_blobs ms (d @ [ID m], fs, lg)"
        by (simp add: os_Remove_absent)
      with None show ?thesis
        by (simp only: upd_absent)
    next
      case (Some b)
      with False have "removable b"
        by (simp add: stuck_def)
      with Some show ?thesis
        by (simp add: os_Remove_present)
    qed
    have "filter (\<lambda>x. \<not> stuck fs (Path x)) (m # ms) =
        m # filter (\<lambda>x. \<not> stuck fs (Path x)) ms"
      and "filter (\<lambda>x. stuck fs (Path x)) (m # ms) = filter (\<lambda>x. stuck fs (Path x)) ms"
      using False by simp_all
    then show ?thesis
      unfolding step Cons.IH stuck_upd [OF False] swept_Cons_free [OF False]
      by simp
  qed
qed


lemma cleanup_eq:
  "cleanup env w =
     (if begin_fails env then ((0, Some ErrBegin), w)
      else if query_fails env then ((0, Some ErrQuery), w)
      else if delete_fails env (batch w)
        then ((int (length (selected w)), Some ErrDelete),
              w\<lparr>files := swept (files w) (selected w), logs := sweep_log w\<rparr>)
      else if commit_fails env
        then ((int (length (selected w)), Some ErrCommit),
              w\<lparr>files := swept (files w) (selected w), logs := sweep_log w\<rparr>)
      else ((int (length (selected w)), None),
            \<lparr>rows = filter (\<lambda>m. ID m \<notin> set (batch w)) (rows w),
             files = swept (files w) (selected w), logs = sweep_log w\<rparr>))"
  by (simp add: cleanup_def Transaction_def cleanup_body_def tx_Find_unlinked_def
      tx_Delete_def remove_blobs_eq selected_def batch_def sweep_log_def Let_def)

lemma interrupted_eq:
  "interrupted env k w =
     (if begin_fails env \<or> query_fails env then w
      else w\<lparr>files := swept (files w) (take k (selected w)),
             logs := logs w @ map (\<lambda>m. ErrPermission)
               (filter (\<lambda>m. stuck (files w) (Path m)) (take k (selected w)))\<rparr>)"
  by (simp add: interrupted_def tx_Find_unlinked_def remove_blobs_eq selected_def Let_def)

lemma key_unique:
  "distinct (map ID rs) \<Longrightarrow> m \<in> set rs \<Longrightarrow> m' \<in> set rs \<Longrightarrow> ID m = ID m' \<Longrightarrow> m = m'"
  by (meson distinct_map inj_onD)

lemma in_batch:
  assumes "distinct (map ID (rows w))" and "m \<in> set (rows w)"
  shows "ID m \<in> set (batch w) \<longleftrightarrow> TurnID m = None \<and> \<not> stuck (files w) (Path m)"
proof
  assume "ID m \<in> set (batch w)"
  then obtain m' where m': "m' \<in> set (rows w)" "TurnID m' = None"
      "\<not> stuck (files w) (Path m')" "ID m' = ID m"
    by (auto simp: batch_def selected_def)
  with assms have "m' = m"
    by (auto dest: key_unique)
  with m' show "TurnID m = None \<and> \<not> stuck (files w) (Path m)"
    by simp
next
  assume "TurnID m = None \<and> \<not> stuck (files w) (Path m)"
  with assms(2) show "ID m \<in> set (batch w)"
    by (auto simp: batch_def selected_def)
qed

lemma rows_after_delete:
  assumes "distinct (map ID (rows w))"
  shows "filter (\<lambda>m. ID m \<notin> set (batch w)) (rows w) =
         filter (\<lambda>m. TurnID m \<noteq> None \<or> stuck (files w) (Path m)) (rows w)"
  by (rule filter_cong) (auto simp: in_batch [OF assms])


lemma cleanup_rows_subset: "set (rows (snd (cleanup env w))) \<subseteq> set (rows w)"
  by (auto simp: cleanup_eq)

lemma cleanup_rows_commit:
  assumes "distinct (map ID (rows w))" and "snd (fst (cleanup env w)) = None"
  shows "rows (snd (cleanup env w)) =
         filter (\<lambda>m. TurnID m \<noteq> None \<or> stuck (files w) (Path m)) (rows w)"
  using assms(2) by (simp add: cleanup_eq rows_after_delete [OF assms(1)] split: if_splits)

lemma cleanup_rows_cases:
  "rows (snd (cleanup env w)) = rows w \<or>
   rows (snd (cleanup env w)) = filter (\<lambda>m. ID m \<notin> set (batch w)) (rows w)"
  by (simp add: cleanup_eq)

lemma cleanup_created_at:
  "map ID (rows (snd (cleanup env (w\<lparr>rows := map (CreatedAt_update f) (rows w)\<rparr>)))) =
   map ID (rows (snd (cleanup env w)))"
proof -
  let ?w = "w\<lparr>rows := map (CreatedAt_update f) (rows w)\<rparr>"
  have sel: "selected ?w = map (CreatedAt_update f) (selected w)"
    by (simp add: selected_def filter_map comp_def)
  have b: "batch ?w = batch w"
    by (simp add: batch_def sel filter_map comp_def)
  have "map ID (filter (\<lambda>m. ID m \<notin> set (batch w)) (map (CreatedAt_update f) (rows w))) =
        map ID (filter (\<lambda>m. ID m \<notin> set (batch w)) (rows w))"
    by (simp add: filter_map comp_def)
  then show ?thesis
    by (simp add: cleanup_eq b sel)
qed

text \<open>Unfolding sets for evaluating the model on the concrete worlds.\<close>

lemmas example_defs = no_faults_def commit_fault_def rec_a_def rec_b_def rec_c_def
  world_fresh_def world_mixed_def

lemmas run_defs = cleanup_def Transaction_def cleanup_body_def tx_Find_unlinked_def
  tx_Delete_def os_Remove_def Let_def

lemma swept_apply:
  "swept fs ms q = (if q \<in> Path ` set ms \<and> \<not> stuck fs q then None else fs q)"
  by (simp add: swept_def)

lemma stuck_swept: "stuck (swept fs ms) = stuck fs"
  by (rule ext) (auto simp: stuck_def swept_def split: option.splits)

lemma stuck_outcome:
  "stuck fs p \<longleftrightarrow> fst (os_Remove fs p) \<notin> {None, Some ErrNotExist}"
  by (auto simp: stuck_def os_Remove_def split: option.splits)

lemma trace_cases:
  assumes "v \<in> set (cleanup_trace env w)"
  shows "(\<exists>k. v = interrupted env k w) \<or> v = snd (cleanup env w)"
  using assms by (auto simp: cleanup_trace_def)

lemma trace_files:
  assumes "v \<in> set (cleanup_trace env w)"
  shows "\<exists>ms. set ms \<subseteq> set (selected w) \<and> files v = swept (files w) ms"
proof -
  from trace_cases [OF assms] show ?thesis
  proof (elim disjE exE)
    fix k assume v: "v = interrupted env k w"
    show ?thesis
    proof (cases "begin_fails env \<or> query_fails env")
      case True
      with v have "files v = swept (files w) []"
        by (simp add: interrupted_eq swept_Nil)
      then show ?thesis by (intro exI [of _ "[]"]) simp
    next
      case False
      with v have "files v = swept (files w) (take k (selected w))"
        by (simp add: interrupted_eq)
      moreover have "set (take k (selected w)) \<subseteq> set (selected w)"
        by (rule set_take_subset)
      ultimately show ?thesis by blast
    qed
  next
    assume v: "v = snd (cleanup env w)"
    show ?thesis
    proof (cases "begin_fails env \<or> query_fails env")
      case True
      with v have "files v = swept (files w) []"
        by (auto simp: cleanup_eq swept_Nil)
      then show ?thesis by (intro exI [of _ "[]"]) simp
    next
      case False
      with v have "files v = swept (files w) (selected w)"
        by (simp add: cleanup_eq)
      then show ?thesis by blast
    qed
  qed
qed

lemma trace_rows:
  assumes "v \<in> set (cleanup_trace env w)"
  shows "rows v = rows w \<or> rows v = filter (\<lambda>m. ID m \<notin> set (batch w)) (rows w)"
  using trace_cases [OF assms] cleanup_rows_cases [of env w]
  by (auto simp: interrupted_eq)

lemma path_unique:
  "distinct (map Path rs) \<Longrightarrow> m \<in> set rs \<Longrightarrow> m' \<in> set rs \<Longrightarrow> Path m = Path m' \<Longrightarrow> m = m'"
  by (meson distinct_map inj_onD)

lemma trace_fresh: "cleanup_trace no_faults world_fresh =
   [world_fresh,
    world_fresh\<lparr>files := (files world_fresh)(''data/a.zip'' := None)\<rparr>,
    \<lparr>rows = [], files = (files world_fresh)(''data/a.zip'' := None), logs = []\<rparr>]"
  by (simp add: cleanup_trace_def interrupted_def example_defs run_defs upt_rec)


lemma deleted_count:
  assumes ids: "distinct (map ID (rows w))"
  shows "length (rows w) =
         length (filter (\<lambda>m. ID m \<notin> set (batch w)) (rows w)) + length (batch w)"
proof -
  let ?keep = "\<lambda>m. TurnID m \<noteq> None \<or> stuck (files w) (Path m)"
  have "filter (\<lambda>m. \<not> ?keep m) (rows w) =
        filter (\<lambda>m. \<not> stuck (files w) (Path m)) (selected w)"
    by (simp add: selected_def conj_commute)
  then have "length (batch w) = length (filter (\<lambda>m. \<not> ?keep m) (rows w))"
    by (simp add: batch_def)
  with sum_length_filter_compl [of ?keep "rows w"] show ?thesis
    by (simp add: rows_after_delete [OF ids])
qed

lemma batch_le_selected: "length (batch w) \<le> length (selected w)"
  by (simp add: batch_def)

lemma resweep:
  assumes "rows v = rows w" and "files v = swept (files w) ms"
  shows "fst (cleanup env v) = fst (cleanup env w) \<and>
         rows (snd (cleanup env v)) = rows (snd (cleanup env w))"
proof -
  have "selected v = selected w"
    using assms(1) by (simp add: selected_def)
  moreover from this have "batch v = batch w"
    using assms(2) by (simp add: batch_def stuck_swept)
  ultimately show ?thesis
    using assms(1) by (simp add: cleanup_eq)
qed

lemma failed_cleanup_world:
  assumes "snd (fst (cleanup env w)) \<noteq> None"
  shows "rows (snd (cleanup env w)) = rows w \<and>
         (\<exists>ms. files (snd (cleanup env w)) = swept (files w) ms)"
proof (cases "begin_fails env \<or> query_fails env")
  case True
  then have "snd (cleanup env w) = w"
    by (auto simp: cleanup_eq)
  then show ?thesis
    by (metis swept_Nil)
next
  case False
  with assms have "rows (snd (cleanup env w)) = rows w"
    and "files (snd (cleanup env w)) = swept (files w) (selected w)"
    by (simp_all add: cleanup_eq split: if_splits)
  then show ?thesis
    by blast
qed

lemma interrupted_world:
  "rows (interrupted env k w) = rows w \<and>
   (\<exists>ms. files (interrupted env k w) = swept (files w) ms)"
proof (cases "begin_fails env \<or> query_fails env")
  case True
  then have "interrupted env k w = w"
    by (simp add: interrupted_eq)
  then show ?thesis
    by (metis swept_Nil)
next
  case False
  then show ?thesis
    by (simp add: interrupted_eq) blast
qed

section \<open>The reclamation loop\<close>

lemma loop_outcome:
  "fst (cleanup_loop es w) = (if CtxDone \<in> set es then Returned None else Running)"
proof (induction es arbitrary: w)
  case Nil
  show ?case by simp
next
  case (Cons ev es)
  show ?case
  proof (cases ev)
    case CtxDone
    then show ?thesis by simp
  next
    case (Tick env)
    obtain n err w' where c: "cleanup env w = ((n, err), w')"
      by (metis surj_pair)
    show ?thesis
      by (cases err) (simp_all add: Tick c Cons.IH)
  qed
qed

lemma logs_cleanup: "set (logs w) \<subseteq> set (logs (snd (cleanup env w)))"
  by (simp add: cleanup_eq sweep_log_def)

lemma logs_loop: "set (logs w) \<subseteq> set (logs (snd (cleanup_loop es w)))"
proof (induction es arbitrary: w)
  case Nil
  show ?case by simp
next
  case (Cons ev es)
  show ?case
  proof (cases ev)
    case CtxDone
    then show ?thesis by simp
  next
    case (Tick env)
    obtain n err w' where c: "cleanup env w = ((n, err), w')"
      by (metis surj_pair)
    with logs_cleanup [of w env] have sub: "set (logs w) \<subseteq> set (logs w')"
      by simp
    show ?thesis
    proof (cases err)
      case None
      with Cons.IH [of w'] sub show ?thesis
        by (auto simp: Tick c)
    next
      case (Some e)
      with Cons.IH [of "w'\<lparr>logs := logs w' @ [e]\<rparr>"] sub show ?thesis
        by (auto simp: Tick c)
    qed
  qed
qed

lemma hourly_interval: "sint (CleanupInterval (makeDefaults config_hourly)) = 3600000000000"
  by (simp add: makeDefaults_def config_hourly_def Hour_def)

section \<open>Upload and download\<close>

lemma find_snoc_new:
  "find P xs = None \<Longrightarrow> P y \<Longrightarrow> find P (xs @ [y]) = Some y"
  by (induction xs) (auto split: if_splits)

lemma find_filter_none:
  "(\<And>x. x \<in> set xs \<Longrightarrow> P x \<Longrightarrow> \<not> Q x) \<Longrightarrow> find P (filter Q xs) = None"
  by (auto simp: find_None_iff)

lemma os_Remove_elsewhere: "q \<noteq> p \<Longrightarrow> snd (os_Remove fs p) q = fs q"
  by (simp add: os_Remove_def split: option.splits)

lemmas upload_defs = Upload_def Download_def env_up_def accepted_content_type_def
  fresh_id_def I1_def os_Remove_def Let_def

section \<open>The claims\<close>

text \<open>
  C10: makeDefaults only fills in zero-valued fields: an empty ApiPrefix becomes "/", an
  empty ListenAddress "localhost:3000", an empty DataDir "data", a zero CleanupInterval
  one hour; every field that is already set keeps its value, and PostgresUrl and
  EnableSwagger are unchanged in all cases.
\<close>

theorem makeDefaults_frame:
  "ApiPrefix (makeDefaults c) = (if ApiPrefix c = [] then ''/'' else ApiPrefix c) \<and>
   ListenAddress (makeDefaults c) =
     (if ListenAddress c = [] then ''localhost:3000'' else ListenAddress c) \<and>
   DataDir (makeDefaults c) = (if DataDir c = [] then ''data'' else DataDir c) \<and>
   CleanupInterval (makeDefaults c) =
     (if CleanupInterval c = 0 then Hour else CleanupInterval c) \<and>
   PostgresUrl (makeDefaults c) = PostgresUrl c \<and>
   EnableSwagger (makeDefaults c) = EnableSwagger c"
  by (simp add: makeDefaults_def Let_def)

text \<open>
  C1, as stated: a sweep selects only records whose turn_id is NULL and whose created_at
  is older than the grace period, so a record created within the grace period is never
  deleted. The sweep of main.go has no grace period: at time 100 with a grace period of
  3600, the unlinked record created at time 100 is deleted by a sweep that commits.
\<close>

theorem sweep_ignores_age_counterexample:
  "rec_a \<in> set (rows world_fresh) \<and> TurnID rec_a = None \<and> within_grace 100 3600 rec_a \<and>
   \<not> spec_selected 100 3600 rec_a \<and>
   snd (fst (cleanup no_faults world_fresh)) = None \<and>
   rows (snd (cleanup no_faults world_fresh)) = []"
  by (simp add: example_defs run_defs within_grace_def spec_selected_def)

text \<open>
  C1, amended: a sweep selects the records whose turn_id is NULL, whatever their
  created_at. With unique keys, every row a sweep removes has turn_id NULL; a sweep that
  commits removes every row with turn_id NULL whose blob removal succeeded or reported
  "file does not exist"; and rewriting created_at in every row changes nothing about
  which rows remain.
\<close>

theorem sweep_selects_unlinked_any_age:
  assumes "distinct (map ID (rows w))" and "m \<in> set (rows w)"
  shows "(m \<notin> set (rows (snd (cleanup env w))) \<longrightarrow> TurnID m = None) \<and>
         (snd (fst (cleanup env w)) = None \<and> TurnID m = None \<and>
            fst (os_Remove (files w) (Path m)) \<in> {None, Some ErrNotExist}
            \<longrightarrow> m \<notin> set (rows (snd (cleanup env w)))) \<and>
         map ID (rows (snd (cleanup env (w\<lparr>rows := map (CreatedAt_update f) (rows w)\<rparr>)))) =
           map ID (rows (snd (cleanup env w)))"
proof (intro conjI impI)
  assume "m \<notin> set (rows (snd (cleanup env w)))"
  with assms(2) cleanup_rows_cases [of env w] have "ID m \<in> set (batch w)"
    by auto
  then show "TurnID m = None"
    by (simp add: in_batch [OF assms])
next
  assume a: "snd (fst (cleanup env w)) = None \<and> TurnID m = None \<and>
      fst (os_Remove (files w) (Path m)) \<in> {None, Some ErrNotExist}"
  then have "\<not> stuck (files w) (Path m)"
    by (auto simp: os_Remove_stuck)
  with a show "m \<notin> set (rows (snd (cleanup env w)))"
    by (simp add: cleanup_rows_commit [OF assms(1)])
next
  show "map ID (rows (snd (cleanup env (w\<lparr>rows := map (CreatedAt_update f) (rows w)\<rparr>)))) =
        map ID (rows (snd (cleanup env w)))"
    by (rule cleanup_created_at)
qed

theorem sweep_selects_unlinked_any_age_witness:
  "distinct (map ID (rows world_fresh)) \<and> rec_a \<in> set (rows world_fresh) \<and>
   snd (fst (cleanup no_faults world_fresh)) = None \<and> TurnID rec_a = None \<and>
   fst (os_Remove (files world_fresh) (Path rec_a)) = None \<and>
   rec_a \<notin> set (rows (snd (cleanup no_faults world_fresh)))"
  using sweep_selects_unlinked_any_age [of world_fresh rec_a no_faults id]
  by (simp add: example_defs run_defs)

text \<open>
  C2: for every sweep and every metadata record whose turn_id is non-null, the sweep
  deletes neither the record's row nor its blob, whatever the record's age. Keys and
  paths are unique in the table (the primary key, and the collision-free allocation of
  blob paths). The statement holds at every point of the sweep, so also when the sweep
  fails or is interrupted.
\<close>

theorem linked_record_untouched:
  assumes ids: "distinct (map ID (rows w))" and paths: "distinct (map Path (rows w))"
    and m: "m \<in> set (rows w)" and linked: "TurnID m \<noteq> None"
  shows "\<forall>v \<in> set (cleanup_trace env w).
           m \<in> set (rows v) \<and> files v (Path m) = files w (Path m)"
proof
  fix v assume v: "v \<in> set (cleanup_trace env w)"
  have "ID m \<notin> set (batch w)"
    using linked by (simp add: in_batch [OF ids m])
  with trace_rows [OF v] m have in_rows: "m \<in> set (rows v)"
    by auto
  from trace_files [OF v] obtain ms
    where ms: "set ms \<subseteq> set (selected w)" "files v = swept (files w) ms"
    by blast
  have "Path m \<notin> Path ` set ms"
  proof
    assume "Path m \<in> Path ` set ms"
    then obtain m' where m': "m' \<in> set ms" "Path m = Path m'"
      by auto
    with ms(1) have sel: "m' \<in> set (rows w)" "TurnID m' = None"
      by (auto simp: selected_def)
    with paths m m'(2) have "m = m'"
      by (auto dest: path_unique)
    with sel(2) linked show False
      by simp
  qed
  with ms(2) have "files v (Path m) = files w (Path m)"
    by (simp add: swept_apply)
  with in_rows show "m \<in> set (rows v) \<and> files v (Path m) = files w (Path m)"
    by simp
qed

theorem linked_record_untouched_witness:
  "distinct (map ID (rows world_mixed)) \<and> distinct (map Path (rows world_mixed)) \<and>
   rec_c \<in> set (rows world_mixed) \<and> TurnID rec_c \<noteq> None \<and>
   rec_c \<in> set (rows (snd (cleanup no_faults world_mixed))) \<and>
   files (snd (cleanup no_faults world_mixed)) (Path rec_c) = files world_mixed (Path rec_c)"
proof -
  have ids: "distinct (map ID (rows world_mixed))"
    and paths: "distinct (map Path (rows world_mixed))"
    and m: "rec_c \<in> set (rows world_mixed)" and linked: "TurnID rec_c \<noteq> None"
    by (simp_all add: example_defs)
  have "snd (cleanup no_faults world_mixed) \<in> set (cleanup_trace no_faults world_mixed)"
    by (simp add: cleanup_trace_def)
  with linked_record_untouched [OF ids paths m linked, of no_faults]
  show ?thesis
    using ids paths m linked by blast
qed

text \<open>
  C3, as stated: at no point during a sweep has a blob been removed while the committed
  table still contains a row whose path references it. In main.go the loop removes the
  blobs inside the open transaction, before the rows are deleted: after the first
  iteration the blob of the unlinked record is gone and its row is still committed; and
  when the commit fails, that is how the sweep ends.
\<close>

theorem blob_removed_before_row_counterexample:
  "rec_a \<in> set (rows (cleanup_trace no_faults world_fresh ! 1)) \<and>
   files world_fresh (Path rec_a) = Some (Blob [1, 2] True) \<and>
   files (cleanup_trace no_faults world_fresh ! 1) (Path rec_a) = None \<and>
   rec_a \<in> set (rows (snd (cleanup commit_fault world_fresh))) \<and>
   files (snd (cleanup commit_fault world_fresh)) (Path rec_a) = None"
  by (simp add: trace_fresh) (simp add: example_defs run_defs)

text \<open>
  C3, amended: a sweep removes blobs before it deletes the rows that reference them, so
  a blob is gone while its row is still committed. What holds: at every point of a
  sweep, a path whose blob has changed holds no blob any more and is the path of a row
  with turn_id NULL of the table the sweep started with; the committed table is
  unchanged at every point before \<^verbatim>\<open>db.Transaction\<close> returns; and, paths being unique,
  once a sweep has committed every row left in the table has its blob as it was before
  the sweep.
\<close>

theorem blob_removal_within_transaction:
  assumes paths: "distinct (map Path (rows w))"
  shows "(\<forall>v \<in> set (cleanup_trace env w). \<forall>p. files v p \<noteq> files w p \<longrightarrow>
            files v p = None \<and> (\<exists>m \<in> set (rows w). TurnID m = None \<and> Path m = p)) \<and>
         (\<forall>v \<in> set (butlast (cleanup_trace env w)). rows v = rows w) \<and>
         (snd (fst (cleanup env w)) = None \<longrightarrow>
            (\<forall>m \<in> set (rows (snd (cleanup env w))).
               files (snd (cleanup env w)) (Path m) = files w (Path m)))"
proof (intro conjI ballI allI impI)
  fix v p assume v: "v \<in> set (cleanup_trace env w)" and p: "files v p \<noteq> files w p"
  from trace_files [OF v] obtain ms
    where ms: "set ms \<subseteq> set (selected w)" "files v = swept (files w) ms"
    by blast
  with p have "p \<in> Path ` set ms" and none: "files v p = None"
    by (auto simp: swept_apply split: if_splits)
  with ms(1) have "\<exists>m \<in> set (rows w). TurnID m = None \<and> Path m = p"
    by (auto simp: selected_def)
  with none show "files v p = None" and "\<exists>m \<in> set (rows w). TurnID m = None \<and> Path m = p"
    by simp_all
next
  fix v assume "v \<in> set (butlast (cleanup_trace env w))"
  then obtain k where "v = interrupted env k w"
    unfolding cleanup_trace_def butlast_snoc by auto
  then show "rows v = rows w"
    by (simp add: interrupted_eq)
next
  fix m
  assume ok: "snd (fst (cleanup env w)) = None"
    and m: "m \<in> set (rows (snd (cleanup env w)))"
  from ok have w': "rows (snd (cleanup env w)) = filter (\<lambda>m. ID m \<notin> set (batch w)) (rows w)"
      "files (snd (cleanup env w)) = swept (files w) (selected w)"
    by (simp_all add: cleanup_eq split: if_splits)
  from m w'(1) have mw: "m \<in> set (rows w)" and nb: "ID m \<notin> set (batch w)"
    by simp_all
  show "files (snd (cleanup env w)) (Path m) = files w (Path m)"
  proof (cases "Path m \<in> Path ` set (selected w)")
    case False
    then show ?thesis
      by (simp add: w'(2) swept_apply)
  next
    case True
    then obtain m' where m': "m' \<in> set (rows w)" "TurnID m' = None" "Path m = Path m'"
      by (auto simp: selected_def)
    with paths mw have "m = m'"
      by (auto dest: path_unique)
    with m' mw have "m \<in> set (selected w)"
      by (simp add: selected_def)
    with nb have "stuck (files w) (Path m)"
      by (auto simp: batch_def)
    then show ?thesis
      by (simp add: w'(2) swept_apply)
  qed
qed

theorem blob_removal_within_transaction_witness:
  "distinct (map Path (rows world_mixed)) \<and>
   snd (fst (cleanup no_faults world_mixed)) = None \<and>
   rec_a \<in> set (rows (snd (cleanup no_faults world_mixed))) \<and>
   files (snd (cleanup no_faults world_mixed)) (Path rec_a) = files world_mixed (Path rec_a)"
proof -
  have paths: "distinct (map Path (rows world_mixed))"
    by (simp add: example_defs)
  have run: "snd (fst (cleanup no_faults world_mixed)) = None"
    "rec_a \<in> set (rows (snd (cleanup no_faults world_mixed)))"
    by (simp_all add: example_defs run_defs)
  with blob_removal_within_transaction [OF paths, of no_faults] show ?thesis
    using paths by blast
qed

text \<open>
  C4: during a sweep, for each selected record: when removing its blob fails with
  "file does not exist", the failure is tolerated and the record's row is still deleted;
  when it fails with any other I/O error, the record's row is left out of this sweep's
  deletion batch; neither case aborts the processing of the other selected records.
  The batch handed to the row deletion holds, in order, the key of every selected
  record whose removal succeeded or reported "file does not exist", whatever happened
  to the records before it; and, keys being unique, a sweep that commits leaves exactly
  the linked rows and the rows whose blob removal failed with another error.
\<close>

theorem blob_failures_per_record:
  assumes ids: "distinct (map ID (rows w))"
  shows "fst (remove_blobs (filter (\<lambda>m. TurnID m = None) (rows w)) ([], files w, logs w)) =
           map ID (filter (\<lambda>m. fst (os_Remove (files w) (Path m)) \<in> {None, Some ErrNotExist})
                     (filter (\<lambda>m. TurnID m = None) (rows w))) \<and>
         (snd (fst (cleanup env w)) = None \<longrightarrow>
            rows (snd (cleanup env w)) =
              filter (\<lambda>m. TurnID m \<noteq> None \<or>
                           fst (os_Remove (files w) (Path m)) \<notin> {None, Some ErrNotExist})
                (rows w))"
proof (intro conjI impI)
  show "fst (remove_blobs (filter (\<lambda>m. TurnID m = None) (rows w)) ([], files w, logs w)) =
      map ID (filter (\<lambda>m. fst (os_Remove (files w) (Path m)) \<in> {None, Some ErrNotExist})
                (filter (\<lambda>m. TurnID m = None) (rows w)))"
    by (simp add: remove_blobs_eq stuck_outcome)
next
  assume "snd (fst (cleanup env w)) = None"
  then have "rows (snd (cleanup env w)) =
      filter (\<lambda>m. TurnID m \<noteq> None \<or> stuck (files w) (Path m)) (rows w)"
    by (rule cleanup_rows_commit [OF ids])
  then show "rows (snd (cleanup env w)) =
      filter (\<lambda>m. TurnID m \<noteq> None \<or>
                   fst (os_Remove (files w) (Path m)) \<notin> {None, Some ErrNotExist}) (rows w)"
    by (simp only: stuck_outcome)
qed

theorem blob_failures_per_record_witness:
  "distinct (map ID (rows world_mixed)) \<and>
   snd (fst (cleanup no_faults world_mixed)) = None \<and>
   fst (os_Remove (files world_mixed) (Path rec_a)) = Some ErrPermission \<and>
   fst (os_Remove (files world_mixed) (Path rec_b)) = Some ErrNotExist \<and>
   rows (snd (cleanup no_faults world_mixed)) = [rec_a, rec_c]"
proof -
  have ids: "distinct (map ID (rows world_mixed))"
    by (simp add: example_defs)
  have ok: "snd (fst (cleanup no_faults world_mixed)) = None"
    by (simp add: example_defs run_defs)
  have "rows (snd (cleanup no_faults world_mixed)) =
      filter (\<lambda>m. TurnID m \<noteq> None \<or>
          fst (os_Remove (files world_mixed) (Path m)) \<notin> {None, Some ErrNotExist})
        (rows world_mixed)"
    using blob_failures_per_record [OF ids, of no_faults] ok by blast
  then show ?thesis
    using ids ok by (simp add: example_defs os_Remove_def)
qed

text \<open>
  C5: selection and row deletion happen in one transaction with the row deletion last.
  When the sweep returns an error (the begin, the query, the row deletion or the commit
  failed) the committed table is unchanged; when the sweep is interrupted after any
  number of loop iterations, the committed table is unchanged; and the next sweep then
  returns what it would have returned and leaves the table it would have left had the
  failed or interrupted sweep never run: it attempts the surviving rows again.
\<close>

theorem failed_sweep_keeps_table:
  "(snd (fst (cleanup env w)) \<noteq> None \<longrightarrow>
      rows (snd (cleanup env w)) = rows w \<and>
      fst (cleanup env' (snd (cleanup env w))) = fst (cleanup env' w) \<and>
      rows (snd (cleanup env' (snd (cleanup env w)))) = rows (snd (cleanup env' w))) \<and>
   rows (interrupted env k w) = rows w \<and>
   fst (cleanup env' (interrupted env k w)) = fst (cleanup env' w) \<and>
   rows (snd (cleanup env' (interrupted env k w))) = rows (snd (cleanup env' w))"
proof -
  have "rows (snd (cleanup env w)) = rows w \<and>
      fst (cleanup env' (snd (cleanup env w))) = fst (cleanup env' w) \<and>
      rows (snd (cleanup env' (snd (cleanup env w)))) = rows (snd (cleanup env' w))"
    if "snd (fst (cleanup env w)) \<noteq> None"
    using failed_cleanup_world [OF that] resweep by blast
  moreover have "rows (interrupted env k w) = rows w \<and>
      fst (cleanup env' (interrupted env k w)) = fst (cleanup env' w) \<and>
      rows (snd (cleanup env' (interrupted env k w))) = rows (snd (cleanup env' w))"
    using interrupted_world [of env k w] resweep by blast
  ultimately show ?thesis
    by blast
qed

theorem failed_sweep_keeps_table_witness:
  "snd (fst (cleanup commit_fault world_fresh)) = Some ErrCommit \<and>
   rows (snd (cleanup commit_fault world_fresh)) = rows world_fresh \<and>
   files (snd (cleanup commit_fault world_fresh)) (Path rec_a) = None \<and>
   fst (cleanup no_faults (snd (cleanup commit_fault world_fresh))) = (1, None) \<and>
   rows (snd (cleanup no_faults (snd (cleanup commit_fault world_fresh)))) = []"
proof -
  have failed: "snd (fst (cleanup commit_fault world_fresh)) = Some ErrCommit"
    and gone: "files (snd (cleanup commit_fault world_fresh)) (Path rec_a) = None"
    and direct: "cleanup no_faults world_fresh =
      ((1, None), \<lparr>rows = [], files = (files world_fresh)(''data/a.zip'' := None), logs = []\<rparr>)"
    by (simp_all add: example_defs run_defs)
  from failed have "snd (fst (cleanup commit_fault world_fresh)) \<noteq> None"
    by simp
  with failed_sweep_keeps_table [of commit_fault world_fresh no_faults 1]
  show ?thesis
    using failed gone by (simp add: direct)
qed

text \<open>
  C6, as stated: cleanup returns the number of records whose row and blob were deleted
  in that sweep, not the number of unlinked records selected. On a table with two
  unlinked records, one whose blob cannot be removed and one whose blob is already
  gone, the sweep commits and returns 2; it has deleted one row of the three, and the
  blob that could not be removed is still there.
\<close>

theorem cleanup_count_counterexample:
  "fst (cleanup no_faults world_mixed) = (2, None) \<and>
   length (rows world_mixed) = 3 \<and>
   rows (snd (cleanup no_faults world_mixed)) = [rec_a, rec_c] \<and>
   files (snd (cleanup no_faults world_mixed)) (Path rec_a) = files world_mixed (Path rec_a)"
  by (simp add: example_defs run_defs)

text \<open>
  C6, amended: cleanup returns the number of records with turn_id NULL that its query
  selected (0 when the transaction could not begin or the query failed). With unique
  keys the number of rows the sweep deleted is at most that number, and it is equal to
  it when the sweep commits and every selected record's blob removal succeeded or
  reported "file does not exist".
\<close>

theorem cleanup_returns_selected_count:
  assumes ids: "distinct (map ID (rows w))"
  shows "fst (fst (cleanup env w)) =
           (if begin_fails env \<or> query_fails env then 0
            else int (length (filter (\<lambda>m. TurnID m = None) (rows w)))) \<and>
         int (length (rows w)) - int (length (rows (snd (cleanup env w))))
           \<le> fst (fst (cleanup env w)) \<and>
         (snd (fst (cleanup env w)) = None \<and>
          (\<forall>m \<in> set (rows w). TurnID m = None \<longrightarrow>
             fst (os_Remove (files w) (Path m)) \<in> {None, Some ErrNotExist})
          \<longrightarrow> int (length (rows w)) - int (length (rows (snd (cleanup env w))))
                = fst (fst (cleanup env w)))"
proof (intro conjI impI)
  show "fst (fst (cleanup env w)) =
      (if begin_fails env \<or> query_fails env then 0
       else int (length (filter (\<lambda>m. TurnID m = None) (rows w))))"
    by (simp add: cleanup_eq selected_def)
next
  note deleted_count [OF ids] batch_le_selected [of w]
  then show "int (length (rows w)) - int (length (rows (snd (cleanup env w))))
      \<le> fst (fst (cleanup env w))"
    by (simp add: cleanup_eq)
next
  assume a: "snd (fst (cleanup env w)) = None \<and>
      (\<forall>m \<in> set (rows w). TurnID m = None \<longrightarrow>
         fst (os_Remove (files w) (Path m)) \<in> {None, Some ErrNotExist})"
  then have "\<forall>m \<in> set (selected w). \<not> stuck (files w) (Path m)"
    by (simp add: selected_def stuck_outcome)
  then have "filter (\<lambda>m. \<not> stuck (files w) (Path m)) (selected w) = selected w"
    by (simp add: filter_id_conv)
  then have "length (batch w) = length (selected w)"
    by (simp add: batch_def)
  with deleted_count [OF ids] a
  show "int (length (rows w)) - int (length (rows (snd (cleanup env w))))
      = fst (fst (cleanup env w))"
    by (simp add: cleanup_eq split: if_splits)
qed

theorem cleanup_returns_selected_count_witness:
  "distinct (map ID (rows world_fresh)) \<and>
   snd (fst (cleanup no_faults world_fresh)) = None \<and>
   fst (os_Remove (files world_fresh) (Path rec_a)) = None \<and>
   fst (fst (cleanup no_faults world_fresh)) = 1 \<and>
   int (length (rows world_fresh)) - int (length (rows (snd (cleanup no_faults world_fresh)))) = 1"
  using cleanup_returns_selected_count [of world_fresh no_faults]
  by (simp add: example_defs run_defs)

text \<open>
  C7: when a sweep returns an error, the reclamation loop logs the error and goes on to
  its next tick; a failed sweep never ends the loop. Once the ticker exists (the
  interval is positive) the task is fixed event by event: with no event left it is
  running in the world it has reached; on cancellation it returns nil and leaves the
  world as it is; on a tick it runs the sweep, appends the sweep's error to the log
  when there is one, and goes on with the remaining events. So the task has returned
  exactly when the context was cancelled, whatever the sweeps returned. After a single
  tick whose sweep failed, the task is running in the world that sweep left, with
  exactly that error appended to the log; the error stays in the log; and the sweep of
  the next tick runs from that world.
\<close>

theorem failed_sweep_logged_loop_continues:
  assumes interval: "0 < sint (CleanupInterval c)"
  shows "reclamation_task c [] w = (Running, w) \<and>
         reclamation_task c (CtxDone # es) w = (Returned None, w) \<and>
         reclamation_task c (Tick env # es) w =
           reclamation_task c es
             (case snd (fst (cleanup env w)) of
                None \<Rightarrow> snd (cleanup env w)
              | Some err \<Rightarrow> (snd (cleanup env w))
                    \<lparr>logs := logs (snd (cleanup env w)) @ [err]\<rparr>) \<and>
         fst (reclamation_task c es w) = (if CtxDone \<in> set es then Returned None else Running) \<and>
         (cleanup env w = ((n, Some e), w') \<longrightarrow>
            reclamation_task c [Tick env] w = (Running, w'\<lparr>logs := logs w' @ [e]\<rparr>) \<and>
            reclamation_task c (Tick env # es) w =
              reclamation_task c es (w'\<lparr>logs := logs w' @ [e]\<rparr>) \<and>
            e \<in> set (logs (snd (reclamation_task c (Tick env # es) w))) \<and>
            (cleanup env' (w'\<lparr>logs := logs w' @ [e]\<rparr>) = ((k, None), v) \<longrightarrow>
               reclamation_task c [Tick env, Tick env'] w = (Running, v)))"
proof -
  have task: "reclamation_task c evs v = cleanup_loop evs v" for evs v
    using interval by (simp add: reclamation_task_def)
  have step: "cleanup_loop (Tick env # es) w =
      cleanup_loop es
        (case snd (fst (cleanup env w)) of
           None \<Rightarrow> snd (cleanup env w)
         | Some err \<Rightarrow> (snd (cleanup env w))\<lparr>logs := logs (snd (cleanup env w)) @ [err]\<rparr>)"
  proof -
    obtain j err u where c: "cleanup env w = ((j, err), u)"
      by (metis surj_pair)
    show ?thesis
      by (cases err) (simp_all add: c)
  qed
  have failed: "reclamation_task c [Tick env] w = (Running, w'\<lparr>logs := logs w' @ [e]\<rparr>) \<and>
      reclamation_task c (Tick env # es) w =
        reclamation_task c es (w'\<lparr>logs := logs w' @ [e]\<rparr>) \<and>
      e \<in> set (logs (snd (reclamation_task c (Tick env # es) w))) \<and>
      (cleanup env' (w'\<lparr>logs := logs w' @ [e]\<rparr>) = ((k, None), v) \<longrightarrow>
         reclamation_task c [Tick env, Tick env'] w = (Running, v))"
    if c: "cleanup env w = ((n, Some e), w')"
  proof (intro conjI impI)
    show "reclamation_task c [Tick env] w = (Running, w'\<lparr>logs := logs w' @ [e]\<rparr>)"
      by (simp add: task c)
    show "reclamation_task c (Tick env # es) w =
        reclamation_task c es (w'\<lparr>logs := logs w' @ [e]\<rparr>)"
      by (simp add: task c)
    have "e \<in> set (logs (w'\<lparr>logs := logs w' @ [e]\<rparr>))"
      by simp
    with logs_loop [of "w'\<lparr>logs := logs w' @ [e]\<rparr>" es]
    have "e \<in> set (logs (snd (cleanup_loop es (w'\<lparr>logs := logs w' @ [e]\<rparr>))))"
      by blast
    then show "e \<in> set (logs (snd (reclamation_task c (Tick env # es) w)))"
      by (simp add: task c)
  next
    assume "cleanup env' (w'\<lparr>logs := logs w' @ [e]\<rparr>) = ((k, None), v)"
    then show "reclamation_task c [Tick env, Tick env'] w = (Running, v)"
      by (simp add: task c)
  qed
  have "reclamation_task c [] w = (Running, w)"
    and "reclamation_task c (CtxDone # es) w = (Returned None, w)"
    and "fst (reclamation_task c es w) = (if CtxDone \<in> set es then Returned None else Running)"
    by (simp_all add: task loop_outcome)
  moreover have "reclamation_task c (Tick env # es) w =
      reclamation_task c es
        (case snd (fst (cleanup env w)) of
           None \<Rightarrow> snd (cleanup env w)
         | Some err \<Rightarrow> (snd (cleanup env w))\<lparr>logs := logs (snd (cleanup env w)) @ [err]\<rparr>)"
    by (simp only: task step)
  ultimately show ?thesis
    using failed by blast
qed

theorem failed_sweep_logged_loop_continues_witness:
  "0 < sint (CleanupInterval (makeDefaults config_hourly)) \<and>
   cleanup commit_fault world_fresh =
     ((1, Some ErrCommit),
      world_fresh\<lparr>files := (files world_fresh)(''data/a.zip'' := None)\<rparr>) \<and>
   reclamation_task (makeDefaults config_hourly) [Tick commit_fault] world_fresh =
     (Running,
      \<lparr>rows = [rec_a], files = (files world_fresh)(''data/a.zip'' := None),
       logs = [ErrCommit]\<rparr>) \<and>
   reclamation_task (makeDefaults config_hourly) [Tick commit_fault, Tick no_faults]
       world_fresh =
     (Running,
      \<lparr>rows = [], files = (files world_fresh)(''data/a.zip'' := None), logs = [ErrCommit]\<rparr>) \<and>
   reclamation_task (makeDefaults config_hourly) [Tick commit_fault, CtxDone, Tick no_faults]
       world_fresh =
     (Returned None,
      \<lparr>rows = [rec_a], files = (files world_fresh)(''data/a.zip'' := None),
       logs = [ErrCommit]\<rparr>)"
proof -
  let ?c = "makeDefaults config_hourly"
  let ?w' = "world_fresh\<lparr>files := (files world_fresh)(''data/a.zip'' := None)\<rparr>"
  let ?w1 = "?w'\<lparr>logs := logs ?w' @ [ErrCommit]\<rparr>"
  let ?w2 = "\<lparr>rows = [], files = (files world_fresh)(''data/a.zip'' := None),
              logs = [ErrCommit]\<rparr>"
  have interval: "0 < sint (CleanupInterval ?c)"
    by (simp add: hourly_interval)
  have c1: "cleanup commit_fault world_fresh = ((1, Some ErrCommit), ?w')"
    by (simp add: example_defs run_defs)
  have c2: "cleanup no_faults ?w1 = ((1, None), ?w2)"
    by (simp add: example_defs run_defs)
  have w1: "?w1 = \<lparr>rows = [rec_a], files = (files world_fresh)(''data/a.zip'' := None),
      logs = [ErrCommit]\<rparr>"
    by (simp add: example_defs)
  note inst = failed_sweep_logged_loop_continues [OF interval,
      where env = commit_fault and w = world_fresh and n = 1 and e = ErrCommit and w' = ?w'
        and env' = no_faults and k = 1 and v = ?w2]
  from inst [where es = "[]"] c1 c2
  have one: "reclamation_task ?c [Tick commit_fault] world_fresh = (Running, ?w1)"
    and two: "reclamation_task ?c [Tick commit_fault, Tick no_faults] world_fresh =
      (Running, ?w2)"
    by blast+
  from inst [where es = "[CtxDone, Tick no_faults]"] c1
    failed_sweep_logged_loop_continues [OF interval, where es = "[Tick no_faults]" and w = ?w1]
  have three: "reclamation_task ?c [Tick commit_fault, CtxDone, Tick no_faults] world_fresh =
      (Returned None, ?w1)"
    by metis
  from interval c1 one two three show ?thesis
    by (simp only: w1)
qed

text \<open>
  C9: after every successful upload for a turn, a download for the same turn made
  right after the upload has returned yields exactly the bytes uploaded, and their
  number is the size in the metadata the upload returned. The path allocated for the
  new blob is not the path of any row (the collision-free naming), and the table
  satisfies invariant I1 before the upload.
\<close>

theorem upload_then_download:
  assumes up: "fst (Upload env w t c ct) = Inr meta"
    and fresh: "new_path env \<notin> Path ` set (rows w)"
    and inv: "I1 (rows w)"
  shows "Download (snd (Upload env w t c ct)) t = Inr (c, Size meta) \<and>
         int (length c) = Size meta"
proof -
  let ?P = "\<lambda>m. TurnID m = Some t"
  let ?new = "\<lparr>ID = fresh_id (rows w), Path = new_path env, Size = int (length c),
               TurnID = Some t, CreatedAt = now env\<rparr>"
  let ?written = "(files w)(new_path env \<mapsto> Blob c True)"
  from up have guards: "turn_exists env t" "ct = accepted_content_type"
      "\<not> max_upload_size env < length c" "\<not> write_fails env" "\<not> tx_fails env"
    by (auto simp: Upload_def Let_def split: if_splits)
  show ?thesis
  proof (cases "find ?P (rows w)")
    case None
    with guards have res: "Upload env w t c ct =
        (Inr ?new, w\<lparr>rows := rows w @ [?new], files := ?written\<rparr>)"
      by (simp add: Upload_def Let_def)
    with up have meta: "meta = ?new"
      by simp
    have "find ?P (rows w @ [?new]) = Some ?new"
      using None by (rule find_snoc_new) simp
    then show ?thesis
      by (simp add: res meta Download_def)
  next
    case (Some old)
    then have old: "old \<in> set (rows w)" "TurnID old = Some t"
      by (auto simp: find_Some_iff)
    obtain err fs' where rm: "os_Remove ?written (Path old) = (err, fs')"
      by (metis surj_pair)
    let ?rows' = "filter (\<lambda>m. ID m \<noteq> ID old) (rows w) @ [?new]"
    from guards Some rm have res: "Upload env w t c ct =
        (Inr ?new, \<lparr>rows = ?rows', files = fs',
           logs = (case err of None \<Rightarrow> logs w | Some e \<Rightarrow> logs w @ [e])\<rparr>)"
      by (simp add: Upload_def Let_def)
    with up have meta: "meta = ?new"
      by simp
    have "find ?P (filter (\<lambda>m. ID m \<noteq> ID old) (rows w)) = None"
    proof (rule find_filter_none)
      fix m assume "m \<in> set (rows w)" and "TurnID m = Some t"
      with inv old show "\<not> ID m \<noteq> ID old"
        unfolding I1_def by fastforce
    qed
    then have found: "find ?P ?rows' = Some ?new"
      by (rule find_snoc_new) simp
    from fresh old(1) have "new_path env \<noteq> Path old"
      by auto
    then have "snd (os_Remove ?written (Path old)) (new_path env) = ?written (new_path env)"
      by (rule os_Remove_elsewhere)
    with rm have "fs' (new_path env) = Some (Blob c True)"
      by simp
    with found show ?thesis
      by (simp add: res meta Download_def)
  qed
qed

theorem upload_then_download_witness:
  "fst (Upload env_up world_mixed 7 [5, 6, 7] ''application/zip'') =
     Inr \<lparr>ID = 4, Path = ''data/n.zip'', Size = 3, TurnID = Some 7, CreatedAt = 200\<rparr> \<and>
   new_path env_up \<notin> Path ` set (rows world_mixed) \<and> I1 (rows world_mixed) \<and>
   Download world_mixed 7 = Inr ([9], 1) \<and>
   Download (snd (Upload env_up world_mixed 7 [5, 6, 7] ''application/zip'')) 7 =
     Inr ([5, 6, 7], 3)"
proof -
  have up: "fst (Upload env_up world_mixed 7 [5, 6, 7] ''application/zip'') =
      Inr \<lparr>ID = 4, Path = ''data/n.zip'', Size = 3, TurnID = Some 7, CreatedAt = 200\<rparr>"
    by (simp add: upload_defs example_defs)
  have fresh: "new_path env_up \<notin> Path ` set (rows world_mixed)"
    by (simp add: upload_defs example_defs)
  have inv: "I1 (rows world_mixed)"
    by (simp add: upload_defs example_defs)
  have before: "Download world_mixed 7 = Inr ([9], 1)"
    by (simp add: upload_defs example_defs)
  from upload_then_download [OF up fresh inv] show ?thesis
    using up fresh inv before by simp
qed

end
